theory Spec2Isabelle
  imports Main "HOL-Library.Word" "HOL-Library.Signed_Division" "HOL-Library.Log_Nat"
begin

unbundle bit_operations_syntax

section \<open>Binary floating point\<close>

text \<open>
  The temperatures of \<^verbatim>\<open>main_sampler_test.cpp\<close> are C++ \<^verbatim>\<open>float\<close>s and the PWM duty
  cycles are \<^verbatim>\<open>double\<close>s. A floating-point datum is modelled by its value: not a number,
  one of the two infinities, or the rational number a finite datum stands for. The sign of
  a zero is dropped: no operation modelled below can tell \<^verbatim>\<open>-0.0\<close> from \<^verbatim>\<open>0.0\<close>
  (comparison, addition of \<^verbatim>\<open>0.5\<close>, multiplication followed by that addition).
  Every arithmetic operation computes the exact rational result and rounds it to the
  nearest datum of its format, ties to the even significand, as IEEE 754 arithmetic in the
  default rounding mode does (expressions are evaluated in the precision of their type).
\<close>

datatype fp = NaN | PInf | NInf | Val rat

definition pow2 :: "int \<Rightarrow> rat" where
  "pow2 k = (if 0 \<le> k then 2 ^ nat k else 1 / 2 ^ nat (- k))"

text \<open>Rounding a rational to the nearest integer, a tie going to the even neighbour.\<close>

definition round_even :: "rat \<Rightarrow> int" where
  "round_even y =
     (let f = \<lfloor>y\<rfloor>; d = y - of_int f in
      if d < 1 / 2 then f else if 1 / 2 < d then f + 1 else if even f then f else f + 1)"

text \<open>The binary exponent of a non-zero rational \<open>x\<close>: the \<open>e\<close> with \<open>2^e \<le> |x| < 2^(e+1)\<close>.\<close>

definition ilog2 :: "rat \<Rightarrow> int" where
  "ilog2 x =
     (let (p, q) = quotient_of \<bar>x\<bar>; e = bitlen p - bitlen q in
      if pow2 e \<le> \<bar>x\<bar> then e else e - 1)"

text \<open>
  Rounding to the format with \<open>p\<close> significand bits and largest exponent \<open>emax\<close>
  (smallest normal exponent \<open>1 - emax\<close>, below which the spacing stays that of the
  subnormal numbers); a result whose exponent exceeds \<open>emax\<close>, that is one of magnitude
  \<open>2^(emax+1)\<close> or more, overflows to an infinity.
\<close>

definition rnd :: "nat \<Rightarrow> int \<Rightarrow> rat \<Rightarrow> fp" where
  "rnd p emax x =
     (if x = 0 then Val 0
      else
        let e = max (ilog2 x) (1 - emax);
            u = pow2 (e - (int p - 1));
            r = of_int (round_even (x / u)) * u
        in if r \<noteq> 0 \<and> emax < ilog2 r then (if 0 < x then PInf else NInf) else Val r)"

text \<open>\<^verbatim>\<open>float\<close> is binary32, \<^verbatim>\<open>double\<close> is binary64.\<close>

definition rnd32 :: "rat \<Rightarrow> fp" where
  "rnd32 = rnd 24 127"

definition rnd64 :: "rat \<Rightarrow> fp" where
  "rnd64 = rnd 53 1023"

text \<open>The comparisons \<^verbatim>\<open><\<close> and \<^verbatim>\<open>>=\<close>; both are false when an operand is not a number.\<close>

fun flt :: "fp \<Rightarrow> fp \<Rightarrow> bool" where
  "flt NaN _ = False"
| "flt _ NaN = False"
| "flt PInf _ = False"
| "flt NInf NInf = False"
| "flt NInf _ = True"
| "flt (Val a) PInf = True"
| "flt (Val a) NInf = False"
| "flt (Val a) (Val b) = (a < b)"

definition fge :: "fp \<Rightarrow> fp \<Rightarrow> bool" where
  "fge a b = (a \<noteq> NaN \<and> b \<noteq> NaN \<and> \<not> flt a b)"

text \<open>Single-precision addition and multiplication.\<close>

fun fadd32 :: "fp \<Rightarrow> fp \<Rightarrow> fp" where
  "fadd32 NaN _ = NaN"
| "fadd32 _ NaN = NaN"
| "fadd32 PInf NInf = NaN"
| "fadd32 NInf PInf = NaN"
| "fadd32 PInf _ = PInf"
| "fadd32 NInf _ = NInf"
| "fadd32 (Val a) PInf = PInf"
| "fadd32 (Val a) NInf = NInf"
| "fadd32 (Val a) (Val b) = rnd32 (a + b)"

fun fneg :: "fp \<Rightarrow> fp" where
  "fneg NaN = NaN"
| "fneg PInf = NInf"
| "fneg NInf = PInf"
| "fneg (Val a) = Val (- a)"

fun fmul_inf :: "fp \<Rightarrow> fp \<Rightarrow> fp" where
  "fmul_inf i (Val a) = (if a = 0 then NaN else if 0 < a then i else fneg i)"
| "fmul_inf i PInf = i"
| "fmul_inf i NInf = fneg i"
| "fmul_inf i NaN = NaN"

fun fmul32 :: "fp \<Rightarrow> fp \<Rightarrow> fp" where
  "fmul32 NaN _ = NaN"
| "fmul32 _ NaN = NaN"
| "fmul32 PInf b = fmul_inf PInf b"
| "fmul32 NInf b = fmul_inf NInf b"
| "fmul32 (Val a) PInf = fmul_inf PInf (Val a)"
| "fmul32 (Val a) NInf = fmul_inf NInf (Val a)"
| "fmul32 (Val a) (Val b) = rnd32 (a * b)"

text \<open>
  The conversion \<^verbatim>\<open>(int)x\<close> of a floating-point value: the fraction is discarded
  (truncation towards zero). The behaviour is undefined when the truncated value is not
  representable in the 32-bit \<^verbatim>\<open>int\<close>, so also for an infinity and for not-a-number:
  that is the result \<open>None\<close>.
\<close>

fun f2i :: "fp \<Rightarrow> int option" where
  "f2i (Val x) =
     (let t = (if 0 \<le> x then \<lfloor>x\<rfloor> else \<lceil>x\<rceil>) in
      if - (2 ^ 31) \<le> t \<and> t \<le> 2 ^ 31 - 1 then Some t else None)"
| "f2i _ = None"

section \<open>The peripheral cores\<close>

text \<open>
  The cores are those of \<^verbatim>\<open>final_proj_function_tester.cpp\<close>: a switch word, an LED
  word, eight PWM duty cycles, eight display cells with a decimal-point mask. The
  arrays are lists; a write checks the position against the size, as the source does.
\<close>

record GpiCore =
  sw :: "32 word"

record GpoCore =
  ledOutput :: "32 word"

record PwmCore =
  duty :: "fp list"
  freq :: int

record SsegCore =
  digit :: "8 word list"
  dp :: "8 word"

text \<open>\<^verbatim>\<open>int read() { return (int)sw; }\<close>: the switch word read as a two's-complement \<^verbatim>\<open>int\<close>.\<close>

definition read_sw :: "GpiCore \<Rightarrow> int" where
  "read_sw g = sint (sw g)"

text \<open>\<^verbatim>\<open>int read(int bit_pos) { return (int)bit_read(sw, bit_pos); }\<close>\<close>

definition read_bit :: "GpiCore \<Rightarrow> nat \<Rightarrow> int" where
  "read_bit g bit_pos = uint (drop_bit bit_pos (sw g) AND 1)"

text \<open>\<^verbatim>\<open>void write(uint32_t v) { ledOutput = v; }\<close>; the caller's \<^verbatim>\<open>int\<close> is converted modulo \<open>2^32\<close>.\<close>

definition write_led :: "GpoCore \<Rightarrow> int \<Rightarrow> GpoCore" where
  "write_led led v = led\<lparr>ledOutput := word_of_int v\<rparr>"

definition set_duty :: "PwmCore \<Rightarrow> fp \<Rightarrow> int \<Rightarrow> PwmCore" where
  "set_duty pwm d ch =
     (if 0 \<le> ch \<and> ch < int (length (duty pwm)) then pwm\<lparr>duty := (duty pwm)[nat ch := d]\<rparr>
      else pwm)"

definition h2s :: "int \<Rightarrow> 8 word" where
  "h2s x = word_of_int (x AND 0xFF)"

definition write_1ptn :: "SsegCore \<Rightarrow> 8 word \<Rightarrow> int \<Rightarrow> SsegCore" where
  "write_1ptn sseg ptn pos =
     (if 0 \<le> pos \<and> pos < int (length (digit sseg))
      then sseg\<lparr>digit := (digit sseg)[nat pos := ptn]\<rparr>
      else sseg)"

definition set_dp :: "SsegCore \<Rightarrow> 8 word \<Rightarrow> SsegCore" where
  "set_dp sseg pt = sseg\<lparr>dp := pt\<rparr>"

text \<open>The cores as the tester constructs them: every array element zero.\<close>

definition pwm0 :: PwmCore where
  "pwm0 = \<lparr>duty = replicate 8 (Val 0), freq = 0\<rparr>"

definition sseg0 :: SsegCore where
  "sseg0 = \<lparr>digit = replicate 8 0, dp = 0\<rparr>"

section \<open>The project functions\<close>

text \<open>
  C++ \<^verbatim>\<open>int\<close> values are modelled as integers; \<^verbatim>\<open>/\<close> and \<^verbatim>\<open>%\<close> truncate towards zero
  (\<open>sdiv\<close>, \<open>smod\<close>), \<^verbatim>\<open>>>\<close> on an \<^verbatim>\<open>int\<close> is the arithmetic shift (\<open>drop_bit\<close> on
  integers). No arithmetic below can leave the 32-bit range for arguments inside it, other
  than the conversion from floating point, which \<open>f2i\<close> checks.
\<close>

definition getTempLimit :: "GpiCore \<Rightarrow> int \<Rightarrow> int" where
  "getTempLimit sw_p segsSel =
     (let s = read_sw sw_p in
      if segsSel = 1 then drop_bit 8 s AND 0x7f else s AND 0x7f)"

definition dispTempLimit :: "GpoCore \<Rightarrow> int \<Rightarrow> int \<Rightarrow> GpoCore" where
  "dispTempLimit led_p lowerLim upperLim =
     (let ledDisp = 0;
          ledDisp = ledDisp OR (lowerLim AND 0x7f);
          ledDisp = ledDisp OR push_bit 8 (upperLim AND 0x7f)
      in write_led led_p ledDisp)"

definition getTempFormat :: "GpiCore \<Rightarrow> int \<Rightarrow> int" where
  "getTempFormat sw_p segsSel =
     (if segsSel = 1 then read_bit sw_p 15 else read_bit sw_p 7)"

text \<open>
  \<^verbatim>\<open>bright = 30.0; duty = bright / 100.0;\<close> in \<^verbatim>\<open>double\<close>: both operands are exact, the
  quotient is rounded to the nearest \<^verbatim>\<open>double\<close>.
\<close>

definition setRGB_duty :: fp where
  "setRGB_duty = rnd64 (30 / 100)"

text \<open>\<^verbatim>\<open>for (int n = 0; n < 3; n++) pwm_p->set_duty(0.0, n + base);\<close>, entered at \<open>n\<close>.\<close>

function setRGB_loop :: "int \<Rightarrow> int \<Rightarrow> PwmCore \<Rightarrow> PwmCore" where
  "setRGB_loop base n pwm =
     (if n < 3 then setRGB_loop base (n + 1) (set_duty pwm (Val 0) (n + base)) else pwm)"
  by pat_completeness auto
termination
  by (relation "measure (\<lambda>(base, n, pwm). nat (3 - n))") auto

definition setRGB :: "PwmCore \<Rightarrow> int \<Rightarrow> int \<Rightarrow> PwmCore" where
  "setRGB pwm_p color rgbPos =
     (if rgbPos = 1 then set_duty (setRGB_loop 3 0 pwm_p) setRGB_duty (color + 4)
      else set_duty (setRGB_loop 0 0 pwm_p) setRGB_duty (color + 1))"

text \<open>\<^verbatim>\<open>tmpF = (tmpC * (9.00f / 5.00f)) + 32.00f;\<close>\<close>

definition cel2fer :: "fp \<Rightarrow> fp" where
  "cel2fer tmpC = fadd32 (fmul32 tmpC (rnd32 (9 / 5))) (Val 32)"

definition BLANK :: "8 word" where
  "BLANK = 0xff"

text \<open>\<^verbatim>\<open>for (int i = 0; i < 8; i++) sseg_p->write_1ptn(BLANK, i);\<close>, entered at \<open>i\<close>.\<close>

function clearDisp_loop :: "int \<Rightarrow> SsegCore \<Rightarrow> SsegCore" where
  "clearDisp_loop i sseg =
     (if i < 8 then clearDisp_loop (i + 1) (write_1ptn sseg BLANK i) else sseg)"
  by pat_completeness auto
termination
  by (relation "measure (\<lambda>(i, sseg). nat (8 - i))") auto

definition clearDisp :: "SsegCore \<Rightarrow> SsegCore" where
  "clearDisp sseg_p = set_dp (clearDisp_loop 0 sseg_p) 0x00"

text \<open>
  The locals of \<^verbatim>\<open>dispTemp\<close> that the properties below speak about: \<^verbatim>\<open>posAdj\<close>
  (lines 139-143), \<^verbatim>\<open>temp\<close> after the selection and the clamp (lines 145-155),
  \<^verbatim>\<open>tempInt\<close> (line 157) and \<^verbatim>\<open>whole\<close> (lines 158-162).
\<close>

definition dispTemp_posAdj :: "int \<Rightarrow> int" where
  "dispTemp_posAdj segsSel = (if segsSel = 1 then 4 else 0)"

definition dispTemp_temp :: "fp \<Rightarrow> fp \<Rightarrow> int \<Rightarrow> fp" where
  "dispTemp_temp tmpC tmpF isFer =
     (let temp = (if isFer = 1 then tmpF else tmpC) in
      if flt temp (Val 0) then Val 0 else temp)"

definition dispTemp_tempInt :: "fp \<Rightarrow> int option" where
  "dispTemp_tempInt temp = f2i (fadd32 (fmul32 temp (Val 10)) (Val (1 / 2)))"

definition dispTemp_whole :: "fp \<Rightarrow> int option" where
  "dispTemp_whole temp =
     (case dispTemp_tempInt temp of
        None \<Rightarrow> None
      | Some tempInt \<Rightarrow>
          if fge temp (Val 100) then f2i (fadd32 temp (Val (1 / 2)))
          else Some (tempInt sdiv 10))"

definition dispTemp :: "SsegCore \<Rightarrow> fp \<Rightarrow> fp \<Rightarrow> int \<Rightarrow> int \<Rightarrow> (SsegCore \<times> bool) option" where
  "dispTemp sseg_p tmpC tmpF isFer segsSel =
     (let posAdj = dispTemp_posAdj segsSel;
          isCel = (isFer \<noteq> 1);
          temp = dispTemp_temp tmpC tmpF isFer
      in
        case dispTemp_tempInt temp of
          None \<Rightarrow> None
        | Some tempInt \<Rightarrow>
           (case dispTemp_whole temp of
              None \<Rightarrow> None
            | Some whole \<Rightarrow>
               (let hundreds = (whole sdiv 100) smod 10;
                    tens = (whole sdiv 10) smod 10;
                    ones = whole smod 10;
                    tenths = tempInt smod 10;
                    isHundred = (100 \<le> whole);
                    s1 = (if isHundred then
                            write_1ptn
                              (write_1ptn
                                (write_1ptn sseg_p (h2s hundreds) (3 + posAdj))
                                (h2s tens) (2 + posAdj))
                              (h2s ones) (1 + posAdj)
                          else
                            write_1ptn
                              (write_1ptn
                                (if 10 \<le> whole then write_1ptn sseg_p (h2s tens) (3 + posAdj)
                                 else write_1ptn sseg_p BLANK (3 + posAdj))
                                (h2s ones) (2 + posAdj))
                              (h2s tenths) (1 + posAdj));
                    s2 = (if isCel then write_1ptn s1 (h2s 0x0C) (0 + posAdj)
                          else write_1ptn s1 (h2s 0x0F) (0 + posAdj))
                in Some (s2, isHundred))))"

definition dispDp :: "SsegCore \<Rightarrow> bool \<Rightarrow> bool \<Rightarrow> SsegCore" where
  "dispDp sseg_p intIsHundred extIsHundred =
     (let dpPos =
        (if intIsHundred \<and> extIsHundred then push_bit 1 1 OR push_bit 5 1
         else if intIsHundred \<and> \<not> extIsHundred then push_bit 2 1 OR push_bit 5 1
         else if \<not> intIsHundred \<and> extIsHundred then push_bit 1 1 OR push_bit 6 1
         else push_bit 2 1 OR push_bit 6 1)
      in set_dp sseg_p dpPos)"

section \<open>The whole-degree value in the spec's words\<close>

text \<open>
  Section 4.5 of the spec, steps 3 and 4, for a finite temperature that is not negative:
  \<^verbatim>\<open>scaledTenths = floor(temp * 10 + 0.5)\<close> in single-precision arithmetic; \<^verbatim>\<open>whole\<close>
  is \<^verbatim>\<open>floor(temp + 0.5)\<close> if \<^verbatim>\<open>temp >= 100\<close>, else \<^verbatim>\<open>scaledTenths / 10\<close> (integer
  division, truncating). These are written on the rational value of the temperature,
  with the mathematical floor and comparison, and are compared with \<open>dispTemp\<close> below;
  \<open>single\<close> is the value of a single-precision result.
\<close>

definition single :: "rat \<Rightarrow> rat" where
  "single x = (case rnd32 x of Val r \<Rightarrow> r | _ \<Rightarrow> 0)"

definition spec_scaledTenths :: "rat \<Rightarrow> int" where
  "spec_scaledTenths temp = \<lfloor>single (single (temp * 10) + 1 / 2)\<rfloor>"

definition spec_whole :: "rat \<Rightarrow> int" where
  "spec_whole temp =
     (if 100 \<le> temp then \<lfloor>single (temp + 1 / 2)\<rfloor> else spec_scaledTenths temp sdiv 10)"

section \<open>Auxiliary facts\<close>

subsection \<open>Rounding and conversion keep a non-negative value non-negative\<close>

lemma pow2_pos: "0 < pow2 k"
  by (simp add: pow2_def)

lemma round_even_nonneg: "0 \<le> y \<Longrightarrow> 0 \<le> round_even y"
  by (simp add: round_even_def Let_def)

lemma rnd_nonneg: "0 \<le> x \<Longrightarrow> rnd p emax x = Val r \<Longrightarrow> 0 \<le> r"
  by (auto simp add: rnd_def Let_def pow2_pos less_imp_le round_even_nonneg split: if_splits)

lemma f2i_nonneg: "0 \<le> r \<Longrightarrow> f2i (Val r) = Some t \<Longrightarrow> 0 \<le> t"
  by (auto simp add: Let_def split: if_splits)

lemma f2i_rnd32_nonneg:
  assumes "0 \<le> x" and "f2i (rnd32 x) = Some t"
  shows "0 \<le> t"
proof (cases "rnd32 x")
  case (Val r)
  with assms(1) have "0 \<le> r"
    using rnd_nonneg [of x 24 127 r] by (simp add: rnd32_def)
  with assms(2) Val show ?thesis
    using f2i_nonneg [of r t] by simp
qed (use assms(2) in simp_all)

lemma tempInt_nonneg:
  assumes "\<not> flt temp (Val 0)" and "dispTemp_tempInt temp = Some tempInt"
  shows "0 \<le> tempInt"
proof (cases temp)
  case (Val x)
  with assms(1) have x: "0 \<le> x" by simp
  show ?thesis
  proof (cases "rnd32 (x * 10)")
    case (Val r1)
    with x have "0 \<le> r1"
      using rnd_nonneg [of "x * 10" 24 127 r1] by (simp add: rnd32_def)
    then have "0 \<le> r1 + 1 / 2" by simp
    moreover from assms(2) \<open>temp = Val x\<close> Val have "f2i (rnd32 (r1 + 1 / 2)) = Some tempInt"
      by (simp add: dispTemp_tempInt_def)
    ultimately show ?thesis by (rule f2i_rnd32_nonneg)
  qed (use assms(2) \<open>temp = Val x\<close> in \<open>simp_all add: dispTemp_tempInt_def\<close>)
qed (use assms in \<open>simp_all add: dispTemp_tempInt_def\<close>)

lemma sdiv_nonneg: "0 \<le> k \<Longrightarrow> 0 < l \<Longrightarrow> (k::int) sdiv l = k div l"
  by (simp add: signed_divide_int_def sgn_if)

lemma smod_nonneg: "0 \<le> k \<Longrightarrow> 0 < l \<Longrightarrow> (k::int) smod l = k mod l"
  by (simp add: signed_modulo_int_def sgn_if)

lemma whole_nonneg:
  assumes "\<not> flt temp (Val 0)" and "dispTemp_whole temp = Some whole"
  shows "0 \<le> whole"
proof -
  from assms(2) obtain tempInt where ti: "dispTemp_tempInt temp = Some tempInt"
    by (auto simp add: dispTemp_whole_def split: option.splits)
  with assms(1) have t0: "0 \<le> tempInt" by (rule tempInt_nonneg)
  show ?thesis
  proof (cases "fge temp (Val 100)")
    case False
    with assms(2) ti have "whole = tempInt sdiv 10" by (simp add: dispTemp_whole_def)
    with t0 show ?thesis by (simp add: sdiv_nonneg)
  next
    case True
    with assms(2) ti have w: "f2i (fadd32 temp (Val (1 / 2))) = Some whole"
      by (simp add: dispTemp_whole_def)
    show ?thesis
    proof (cases temp)
      case (Val x)
      with assms(1) have "0 \<le> x + 1 / 2" by simp
      moreover from w Val have "f2i (rnd32 (x + 1 / 2)) = Some whole" by simp
      ultimately show ?thesis by (rule f2i_rnd32_nonneg)
    qed (use w in simp_all)
  qed
qed

lemma temp_not_neg: "\<not> flt (dispTemp_temp tmpC tmpF isFer) (Val 0)"
  by (simp add: dispTemp_temp_def Let_def)

lemma whole_tempInt: "dispTemp_whole temp = Some whole \<Longrightarrow> \<exists>tempInt. dispTemp_tempInt temp = Some tempInt"
  by (auto simp add: dispTemp_whole_def split: option.splits)

subsection \<open>The display writes of \<open>dispTemp\<close>\<close>

lemma posAdj_cases: "dispTemp_posAdj segsSel = 0 \<or> dispTemp_posAdj segsSel = 4"
  by (simp add: dispTemp_posAdj_def)

lemma write_1ptn_len [simp]: "length (digit (write_1ptn s ptn pos)) = length (digit s)"
  by (simp add: write_1ptn_def)

lemma write_1ptn_dp [simp]: "dp (write_1ptn s ptn pos) = dp s"
  by (simp add: write_1ptn_def)

lemma write_1ptn_digit:
  "length (digit s) = 8 \<Longrightarrow> 0 \<le> pos \<Longrightarrow> pos < 8 \<Longrightarrow>
   digit (write_1ptn s ptn pos) = (digit s)[nat pos := ptn]"
  by (simp add: write_1ptn_def)

lemma SsegCore_eqI: "digit a = digit b \<Longrightarrow> dp a = dp b \<Longrightarrow> (a::SsegCore) = b"
  by simp

lemma dispTemp_eq:
  assumes len: "length (digit sseg) = 8"
    and ti: "dispTemp_tempInt (dispTemp_temp tmpC tmpF isFer) = Some tempInt"
    and w: "dispTemp_whole (dispTemp_temp tmpC tmpF isFer) = Some whole"
  shows "dispTemp sseg tmpC tmpF isFer segsSel =
    Some (sseg\<lparr>digit := (digit sseg)
       [nat (3 + dispTemp_posAdj segsSel) :=
          (if 100 \<le> whole then h2s ((whole sdiv 100) smod 10)
           else if 10 \<le> whole then h2s ((whole sdiv 10) smod 10) else BLANK),
        nat (2 + dispTemp_posAdj segsSel) :=
          (if 100 \<le> whole then h2s ((whole sdiv 10) smod 10) else h2s (whole smod 10)),
        nat (1 + dispTemp_posAdj segsSel) :=
          (if 100 \<le> whole then h2s (whole smod 10) else h2s (tempInt smod 10)),
        nat (dispTemp_posAdj segsSel) := (if isFer = 1 then h2s 0x0F else h2s 0x0C)]\<rparr>, 100 \<le> whole)"
proof -
  have p: "0 \<le> dispTemp_posAdj segsSel" "dispTemp_posAdj segsSel \<le> 4"
    by (simp_all add: dispTemp_posAdj_def)
  show ?thesis
    unfolding dispTemp_def Let_def ti w option.case
    apply (simp only: prod.inject option.inject simp_thms)
    apply (rule SsegCore_eqI)
    using p len
     apply (simp_all add: write_1ptn_digit)
    done
qed

subsection \<open>Display patterns\<close>

lemma h2s_uint: "0 \<le> d \<Longrightarrow> d \<le> 255 \<Longrightarrow> uint (h2s d) = d"
proof -
  assume a: "0 \<le> d" "d \<le> 255"
  have "d AND 0xFF = take_bit 8 d"
    by (simp add: take_bit_eq_mask mask_eq_exp_minus_1)
  also from a have "\<dots> = d" by (simp add: take_bit_int_eq_self)
  finally have "h2s d = word_of_int d" by (simp add: h2s_def)
  with a show ?thesis by (simp add: uint_word_of_int take_bit_int_eq_self take_bit_eq_mod [symmetric])
qed

lemma h2s_glyph: "h2s 0x0C = 0x0C" "h2s 0x0F = 0x0F"
  by (simp_all add: h2s_def)

lemma h2s_small: "0 \<le> d \<Longrightarrow> d \<le> 255 \<Longrightarrow> h2s d = word_of_int d"
proof -
  assume a: "0 \<le> d" "d \<le> 255"
  have "d AND 0xFF = take_bit 8 d"
    by (simp add: take_bit_eq_mask mask_eq_exp_minus_1)
  also from a have "\<dots> = d" by (simp add: take_bit_int_eq_self)
  finally show "h2s d = word_of_int d" by (simp add: h2s_def)
qed

lemma digit_sdiv_smod:
  assumes "0 \<le> k" "0 < l"
  shows "h2s ((k sdiv l) smod 10) = word_of_int ((k div l) mod 10)"
proof -
  from assms have "(k sdiv l) smod 10 = (k div l) mod 10"
    by (simp add: sdiv_nonneg smod_nonneg pos_imp_zdiv_nonneg_iff)
  moreover have "0 \<le> (k div l) mod 10" "(k div l) mod 10 \<le> 255"
    using pos_mod_bound [of 10 "k div l"] by simp_all
  ultimately show ?thesis by (simp add: h2s_small)
qed

lemma digit_smod:
  assumes "0 \<le> k"
  shows "h2s (k smod 10) = word_of_int (k mod 10)"
  using digit_sdiv_smod [of k 1] assms by simp

lemma tempInt_zero: "dispTemp_tempInt (Val 0) = Some 0"
  by code_simp

lemma whole_zero: "dispTemp_whole (Val 0) = Some 0"
  by code_simp

lemma dispTemp_SomeD:
  assumes "dispTemp sseg tmpC tmpF isFer segsSel = Some (s', r)"
  shows "\<exists>tempInt whole. dispTemp_tempInt (dispTemp_temp tmpC tmpF isFer) = Some tempInt \<and>
    dispTemp_whole (dispTemp_temp tmpC tmpF isFer) = Some whole"
  using assms unfolding dispTemp_def Let_def
  by (cases "dispTemp_tempInt (dispTemp_temp tmpC tmpF isFer)";
      cases "dispTemp_whole (dispTemp_temp tmpC tmpF isFer)") simp_all

lemma dispTemp_ret:
  "map_option snd (dispTemp sseg tmpC tmpF isFer segsSel) =
   map_option (\<lambda>whole. 100 \<le> whole) (dispTemp_whole (dispTemp_temp tmpC tmpF isFer))"
  unfolding dispTemp_def Let_def
  by (cases "dispTemp_tempInt (dispTemp_temp tmpC tmpF isFer)";
      cases "dispTemp_whole (dispTemp_temp tmpC tmpF isFer)")
     (simp_all add: dispTemp_whole_def)

lemma list8:
  assumes "length xs = 8"
  shows "\<exists>a0 a1 a2 a3 a4 a5 a6 a7. xs = [a0, a1, a2, a3, a4, a5, a6, a7]"
  using assms by (simp add: numeral_eq_Suc length_Suc_conv) blast

lemma digit_le9:
  assumes "0 \<le> k" "0 < l"
  shows "uint (h2s ((k sdiv l) smod 10)) \<le> 9"
proof -
  from assms have e: "(k sdiv l) smod 10 = (k div l) mod 10"
    by (simp add: sdiv_nonneg smod_nonneg pos_imp_zdiv_nonneg_iff)
  have b: "0 \<le> (k div l) mod 10" "(k div l) mod 10 < 10"
    by simp_all
  then have "uint (h2s ((k div l) mod 10)) = (k div l) mod 10"
    by (intro h2s_uint) simp_all
  with e b show ?thesis by simp
qed

lemma cell3_digit_or_blank:
  assumes "0 \<le> whole"
  shows "(if 100 \<le> whole then h2s ((whole sdiv 100) smod 10)
          else if 10 \<le> whole then h2s ((whole sdiv 10) smod 10) else BLANK) = 0xFF \<or>
         uint (if 100 \<le> whole then h2s ((whole sdiv 100) smod 10)
          else if 10 \<le> whole then h2s ((whole sdiv 10) smod 10) else BLANK) \<le> 9"
  using digit_le9 [OF assms, of 100] digit_le9 [OF assms, of 10]
  by (simp add: BLANK_def)

subsection \<open>Where \<open>dispTemp\<close> is defined\<close>

text \<open>
  Rounding does not carry a value past a power of two, so the conversions of
  \<open>dispTemp\<close> stay inside the \<^verbatim>\<open>int\<close> range for every finite temperature up to
  \<open>2^25\<close> degrees, negative ones included (they are clamped): there the call has a
  result. It has none for not-a-number, for plus infinity and for temperatures whose
  tenths exceed the \<^verbatim>\<open>int\<close> range.
\<close>

lemma pow2_powi: "pow2 k = power_int 2 k"
  by (simp add: pow2_def power_int_def inverse_eq_divide power_one_over)

lemma pow2_add: "pow2 (a + b) = pow2 a * pow2 b"
  by (simp add: pow2_powi power_int_add)

lemma pow2_diff: "pow2 (a - b) = pow2 a / pow2 b"
  by (simp add: pow2_powi power_int_diff)

lemma pow2_mono: "a \<le> b \<Longrightarrow> pow2 a \<le> pow2 b"
  by (simp add: pow2_powi power_int_increasing)

lemma pow2_less_cancel: "pow2 a < pow2 b \<Longrightarrow> a < b"
  using pow2_mono [of b a] by (cases "a < b") simp_all

lemma pow2_nat: "0 \<le> k \<Longrightarrow> pow2 k = of_int (2 ^ nat k)"
  by (simp add: pow2_def)

lemma ilog2_lower:
  assumes "x \<noteq> 0"
  shows "pow2 (ilog2 x) \<le> \<bar>x\<bar>"
proof -
  obtain p q where pq: "quotient_of \<bar>x\<bar> = (p, q)"
    by (cases "quotient_of \<bar>x\<bar>")
  then have q: "0 < q" and x: "\<bar>x\<bar> = of_int p / of_int q"
    by (rule quotient_of_denom_pos, rule quotient_of_div)
  from assms have "0 < \<bar>x\<bar>" by simp
  with x q have p: "0 < p"
    by (simp add: zero_less_divide_iff)
  show ?thesis
  proof (cases "pow2 (bitlen p - bitlen q) \<le> \<bar>x\<bar>")
    case True
    then show ?thesis by (simp add: ilog2_def pq Let_def)
  next
    case False
    then have e: "ilog2 x = (bitlen p - 1) - bitlen q"
      by (simp add: ilog2_def pq Let_def)
    from bitlen_bounds [OF p] have "bitlen p - 1 \<ge> 0"
      using p by (simp add: bitlen_alt_def)
    with bitlen_bounds [OF p] have 1: "pow2 (bitlen p - 1) \<le> of_int p"
      by (simp add: pow2_nat del: of_int_power) 
    from bitlen_bounds [OF q] bitlen_nonneg [of q] have 2: "of_int q \<le> pow2 (bitlen q)"
      by (simp add: pow2_nat less_imp_le del: of_int_power)
    have "pow2 (bitlen p - 1) / pow2 (bitlen q) \<le> of_int p / of_int q"
      using p q 1 2 by (intro frac_le) simp_all
    then show ?thesis
      by (simp add: e pow2_diff x)
  qed
qed

lemma ilog2_le:
  assumes "x \<noteq> 0" and "\<bar>x\<bar> \<le> pow2 k"
  shows "ilog2 x \<le> k"
proof (rule ccontr)
  assume "\<not> ilog2 x \<le> k"
  then have "k + 1 \<le> ilog2 x" by simp
  then have "pow2 (k + 1) \<le> pow2 (ilog2 x)" by (rule pow2_mono)
  also have "\<dots> \<le> \<bar>x\<bar>" using assms(1) by (rule ilog2_lower)
  also have "\<dots> \<le> pow2 k" by fact
  finally have "pow2 (k + 1) \<le> pow2 k" .
  then show False
    using pow2_pos [of k] pow2_add [of k 1] by (simp add: pow2_nat)
qed

lemma round_even_le:
  assumes "y \<le> of_int M"
  shows "round_even y \<le> M"
proof -
  from assms have f: "\<lfloor>y\<rfloor> \<le> M" by (simp add: floor_le_iff)
  show ?thesis
  proof (cases "y = of_int M")
    case True
    then show ?thesis by (simp add: round_even_def)
  next
    case False
    with assms have "y < of_int M" by simp
    then have "\<lfloor>y\<rfloor> < M" by (simp add: floor_less_iff)
    then show ?thesis by (simp add: round_even_def Let_def)
  qed
qed

lemma rnd_le_pow2:
  assumes x0: "0 \<le> x" and xk: "x \<le> pow2 k" and emin: "1 - emax \<le> k" and emax: "k \<le> emax"
    and p: "1 \<le> p"
  shows "\<exists>r. rnd p emax x = Val r \<and> 0 \<le> r \<and> r \<le> pow2 k"
proof (cases "x = 0")
  case True
  then show ?thesis
    using pow2_pos [of k] by (simp add: rnd_def less_imp_le)
next
  case False
  define e where "e = max (ilog2 x) (1 - emax)"
  define j where "j = e - (int p - 1)"
  define u where "u = pow2 j"
  define M :: int where "M = 2 ^ nat (k - j)"
  define r where "r = of_int (round_even (x / u)) * u"
  from False x0 xk have "ilog2 x \<le> k"
    by (intro ilog2_le) simp_all
  with emin have "e \<le> k" by (simp add: e_def)
  with p have jk: "j \<le> k" by (simp add: j_def)
  have u: "0 < u" by (simp add: u_def pow2_pos)
  have "pow2 k = pow2 ((k - j) + j)" by simp
  also have "\<dots> = pow2 (k - j) * u" unfolding u_def by (rule pow2_add)
  also from jk have "pow2 (k - j) = of_int M" by (simp add: M_def pow2_nat)
  finally have kM: "pow2 k = of_int M * u" .
  with xk u have "x / u \<le> of_int M"
    by (simp add: pos_divide_le_eq)
  then have mM: "round_even (x / u) \<le> M" by (rule round_even_le)
  from x0 u have m0: "0 \<le> round_even (x / u)"
    by (intro round_even_nonneg) simp
  from m0 u have r0: "0 \<le> r" by (simp add: r_def)
  from mM u have rk: "r \<le> pow2 k"
    by (simp add: r_def kM)
  have "\<not> (r \<noteq> 0 \<and> emax < ilog2 r)"
  proof
    assume a: "r \<noteq> 0 \<and> emax < ilog2 r"
    with r0 rk have "ilog2 r \<le> k" by (intro ilog2_le) simp_all
    with a emax show False by simp
  qed
  then have "rnd p emax x = Val r"
    using False by (simp add: rnd_def Let_def e_def j_def u_def r_def)
  with r0 rk show ?thesis by simp
qed

lemma rnd32_le_pow2:
  assumes "0 \<le> x" and "x \<le> 2 ^ n" and "n \<le> 127"
  shows "\<exists>r. rnd32 x = Val r \<and> 0 \<le> r \<and> r \<le> 2 ^ n"
proof -
  from assms(2) have "x \<le> pow2 (int n)" by (simp add: pow2_def)
  with assms(1) have "\<exists>r. rnd 24 127 x = Val r \<and> 0 \<le> r \<and> r \<le> pow2 (int n)"
    using assms(3) by (intro rnd_le_pow2) simp_all
  then show ?thesis by (simp add: rnd32_def pow2_def)
qed

lemma f2i_defined:
  assumes "0 \<le> r" and "r \<le> 2 ^ 30"
  shows "f2i (Val r) = Some \<lfloor>r\<rfloor>"
proof -
  from assms(1) have "0 \<le> \<lfloor>r\<rfloor>" by simp
  moreover from assms(2) have "\<lfloor>r\<rfloor> \<le> 2 ^ 30"
    by (simp add: floor_le_iff)
  ultimately show ?thesis using assms(1) by (simp add: Let_def)
qed

lemma dispTemp_whole_defined:
  assumes x0: "0 \<le> x" and xb: "x \<le> 2 ^ 25"
  shows "\<exists>tempInt whole. dispTemp_tempInt (Val x) = Some tempInt \<and>
    dispTemp_whole (Val x) = Some whole"
proof -
  from x0 xb have "0 \<le> x * 10" "x * 10 \<le> 2 ^ 29" by simp_all
  then obtain r1 where r1: "rnd32 (x * 10) = Val r1" "0 \<le> r1" "r1 \<le> 2 ^ 29"
    using rnd32_le_pow2 [of "x * 10" 29] by auto
  then have "0 \<le> r1 + 1 / 2" "r1 + 1 / 2 \<le> 2 ^ 30" by simp_all
  then obtain r2 where r2: "rnd32 (r1 + 1 / 2) = Val r2" "0 \<le> r2" "r2 \<le> 2 ^ 30"
    using rnd32_le_pow2 [of "r1 + 1 / 2" 30] by auto
  from r1 r2 have ti: "dispTemp_tempInt (Val x) = Some \<lfloor>r2\<rfloor>"
    by (simp add: dispTemp_tempInt_def f2i_defined del: f2i.simps)
  from x0 xb have "0 \<le> x + 1 / 2" "x + 1 / 2 \<le> 2 ^ 30" by simp_all
  then obtain r3 where r3: "rnd32 (x + 1 / 2) = Val r3" "0 \<le> r3" "r3 \<le> 2 ^ 30"
    using rnd32_le_pow2 [of "x + 1 / 2" 30] by auto
  then have "f2i (fadd32 (Val x) (Val (1 / 2))) = Some \<lfloor>r3\<rfloor>"
    by (simp add: f2i_defined del: f2i.simps)
  with ti show ?thesis
    by (simp add: dispTemp_whole_def)
qed

lemma dispTemp_defined:
  assumes "(if isFer = 1 then tmpF else tmpC) = Val x" and "x \<le> 2 ^ 25"
  shows "dispTemp sseg tmpC tmpF isFer segsSel \<noteq> None"
proof -
  have "\<exists>y. dispTemp_temp tmpC tmpF isFer = Val y \<and> 0 \<le> y \<and> y \<le> 2 ^ 25"
    using assms by (cases "x < 0") (simp_all add: dispTemp_temp_def Let_def)
  then obtain y where y: "dispTemp_temp tmpC tmpF isFer = Val y" "0 \<le> y" "y \<le> 2 ^ 25"
    by blast
  from dispTemp_whole_defined [OF y(2,3)] obtain whole
    where "dispTemp_whole (dispTemp_temp tmpC tmpF isFer) = Some whole"
    by (auto simp add: y(1))
  then have "map_option snd (dispTemp sseg tmpC tmpF isFer segsSel) = Some (100 \<le> whole)"
    by (simp add: dispTemp_ret)
  then show ?thesis by auto
qed

subsection \<open>\<open>dispTemp\<close> computes the whole-degree value of the spec\<close>

text \<open>
  A rounded result lies on the same side of every number of the format's grid as the
  exact one. With that, the conversions of \<open>dispTemp\<close> yield the spec's
  \<open>scaledTenths\<close> and \<open>whole\<close> on every temperature from 0 to \<open>2^22\<close> degrees, the
  whole-degree value is at least 100 from 99.95 degrees on and below 100 up to 99.9
  degrees, and from 100 degrees on it is the temperature rounded half up, to within the
  one rounding of the single-precision addition.
\<close>

lemma round_even_ge:
  assumes "of_int M \<le> y"
  shows "M \<le> round_even y"
proof -
  from assms have "M \<le> \<lfloor>y\<rfloor>" by (simp add: le_floor_iff)
  then show ?thesis by (simp add: round_even_def Let_def)
qed

lemma rnd_grid:
  assumes x0: "0 \<le> x" and xK: "x \<le> pow2 K" and emin: "1 - emax \<le> K" and emax: "K \<le> emax"
    and p: "1 \<le> p" and j: "K - (int p - 1) \<le> j"
  shows "\<exists>r. rnd p emax x = Val r \<and> 0 \<le> r \<and> r \<le> pow2 K \<and>
    (\<forall>m. x \<le> of_int m * pow2 j \<longrightarrow> r \<le> of_int m * pow2 j) \<and>
    (\<forall>m. of_int m * pow2 j \<le> x \<longrightarrow> of_int m * pow2 j \<le> r)"
proof (cases "x = 0")
  case True
  then show ?thesis
    using pow2_pos [of K] by (simp add: rnd_def less_imp_le)
next
  case False
  define e where "e = max (ilog2 x) (1 - emax)"
  define i where "i = e - (int p - 1)"
  define u where "u = pow2 i"
  define N :: int where "N = 2 ^ nat (j - i)"
  define r where "r = of_int (round_even (x / u)) * u"
  from rnd_le_pow2 [OF x0 xK emin emax p] obtain r' where
    r': "rnd p emax x = Val r'" "0 \<le> r'" "r' \<le> pow2 K" by blast
  from False x0 xK have "ilog2 x \<le> K"
    by (intro ilog2_le) simp_all
  with emin have "e \<le> K" by (simp add: e_def)
  with j have ij: "i \<le> j" by (simp add: i_def)
  have u: "0 < u" by (simp add: u_def pow2_pos)
  have "pow2 j = pow2 ((j - i) + i)" by simp
  also have "\<dots> = pow2 (j - i) * u" unfolding u_def by (rule pow2_add)
  also from ij have "pow2 (j - i) = of_int N" by (simp add: N_def pow2_nat)
  finally have jN: "pow2 j = of_int N * u" .
  from r'(1) False have rr: "r' = r"
    by (simp add: rnd_def Let_def e_def i_def u_def r_def split: if_splits)
  have le: "r \<le> of_int m * pow2 j" if "x \<le> of_int m * pow2 j" for m
  proof -
    from that u have "x / u \<le> of_int (m * N)"
      by (simp add: pos_divide_le_eq jN mult.assoc)
    then have "round_even (x / u) \<le> m * N" by (rule round_even_le)
    then have "of_int (round_even (x / u)) \<le> (of_int (m * N) :: rat)"
      by (simp only: of_int_le_iff)
    with u have "of_int (round_even (x / u)) * u \<le> of_int (m * N) * u"
      by (simp only: mult_le_cancel_right_pos)
    then show ?thesis by (simp add: r_def jN mult.assoc)
  qed
  have ge: "of_int m * pow2 j \<le> r" if "of_int m * pow2 j \<le> x" for m
  proof -
    from that u have "of_int (m * N) \<le> x / u"
      by (simp add: pos_le_divide_eq jN mult.assoc)
    then have "m * N \<le> round_even (x / u)" by (rule round_even_ge)
    then have "(of_int (m * N) :: rat) \<le> of_int (round_even (x / u))"
      by (simp only: of_int_le_iff)
    with u have "of_int (m * N) * u \<le> of_int (round_even (x / u)) * u"
      by (simp only: mult_le_cancel_right_pos)
    then show ?thesis by (simp add: r_def jN mult.assoc)
  qed
  from r' rr le ge show ?thesis by blast
qed

lemma rnd32_grid:
  assumes "0 \<le> x" and "x \<le> 2 ^ K" and "K \<le> 127"
  obtains r where "rnd32 x = Val r" and "0 \<le> r" and "r \<le> 2 ^ K"
    and "\<And>m. x \<le> of_int m * pow2 (int K - 23) \<Longrightarrow> r \<le> of_int m * pow2 (int K - 23)"
    and "\<And>m. of_int m * pow2 (int K - 23) \<le> x \<Longrightarrow> of_int m * pow2 (int K - 23) \<le> r"
proof -
  from assms(2) have "x \<le> pow2 (int K)" by (simp add: pow2_def)
  with assms(1) have "\<exists>r. rnd 24 127 x = Val r \<and> 0 \<le> r \<and> r \<le> pow2 (int K) \<and>
    (\<forall>m. x \<le> of_int m * pow2 (int K - 23) \<longrightarrow> r \<le> of_int m * pow2 (int K - 23)) \<and>
    (\<forall>m. of_int m * pow2 (int K - 23) \<le> x \<longrightarrow> of_int m * pow2 (int K - 23) \<le> r)"
    using assms(3) by (intro rnd_grid) simp_all
  then obtain r where "rnd32 x = Val r" "0 \<le> r" "r \<le> 2 ^ K"
    "\<And>m. x \<le> of_int m * pow2 (int K - 23) \<Longrightarrow> r \<le> of_int m * pow2 (int K - 23)"
    "\<And>m. of_int m * pow2 (int K - 23) \<le> x \<Longrightarrow> of_int m * pow2 (int K - 23) \<le> r"
    by (auto simp add: rnd32_def pow2_def)
  then show ?thesis by (rule that)
qed

lemma div10_ge: "1000 \<le> (k::int) \<Longrightarrow> 100 \<le> k div 10"
  by presburger

lemma div10_lt: "(k::int) < 1000 \<Longrightarrow> k div 10 < 100"
  by presburger

lemma single_val: "rnd32 x = Val r \<Longrightarrow> single x = r"
  by (simp add: single_def)

lemma spec_refines:
  assumes t0: "0 \<le> t" and tb: "t \<le> 2 ^ 22"
  shows "dispTemp_tempInt (Val t) = Some (spec_scaledTenths t) \<and>
    dispTemp_whole (Val t) = Some (spec_whole t)"
proof -
  from t0 tb have "0 \<le> t * 10" "t * 10 \<le> 2 ^ 26" by simp_all
  then obtain r1 where r1: "rnd32 (t * 10) = Val r1" "0 \<le> r1" "r1 \<le> 2 ^ 26"
    by (rule rnd32_grid [of "t * 10" 26]) simp_all
  then have "0 \<le> r1 + 1 / 2" "r1 + 1 / 2 \<le> 2 ^ 27" by simp_all
  then obtain r2 where r2: "rnd32 (r1 + 1 / 2) = Val r2" "0 \<le> r2" "r2 \<le> 2 ^ 27"
    by (rule rnd32_grid [of "r1 + 1 / 2" 27]) simp_all
  from r2 have r2': "r2 \<le> 2 ^ 30" by simp
  have st: "spec_scaledTenths t = \<lfloor>r2\<rfloor>"
    by (simp add: spec_scaledTenths_def single_val [OF r1(1)] single_val [OF r2(1)])
  from r1 r2 r2' have ti: "dispTemp_tempInt (Val t) = Some \<lfloor>r2\<rfloor>"
    by (simp add: dispTemp_tempInt_def f2i_defined del: f2i.simps)
  have fge: "fge (Val t) (Val 100) = (100 \<le> t)"
    by (auto simp add: fge_def)
  have "dispTemp_whole (Val t) = Some (spec_whole t)"
  proof (cases "100 \<le> t")
    case True
    from t0 tb have "0 \<le> t + 1 / 2" "t + 1 / 2 \<le> 2 ^ 23" by simp_all
    then obtain r3 where r3: "rnd32 (t + 1 / 2) = Val r3" "0 \<le> r3" "r3 \<le> 2 ^ 23"
      by (rule rnd32_grid [of "t + 1 / 2" 23]) simp_all
    from r3 have "r3 \<le> 2 ^ 30" by simp
    with r3 have "f2i (fadd32 (Val t) (Val (1 / 2))) = Some \<lfloor>r3\<rfloor>"
      by (simp add: f2i_defined del: f2i.simps)
    with True ti show ?thesis
      by (simp add: dispTemp_whole_def fge spec_whole_def single_val [OF r3(1)])
  next
    case False
    with ti show ?thesis
      by (simp add: dispTemp_whole_def fge spec_whole_def st)
  qed
  with ti st show ?thesis by simp
qed

lemma spec_whole_ge_100:
  assumes "9995 / 100 \<le> t" and tb: "t \<le> 2 ^ 22"
  shows "100 \<le> spec_whole t"
proof (cases "100 \<le> t")
  case True
  with tb have "0 \<le> t + 1 / 2" "t + 1 / 2 \<le> 2 ^ 23" by simp_all
  then obtain r3 where r3: "rnd32 (t + 1 / 2) = Val r3"
    and g: "\<And>m. of_int m * pow2 (int 23 - 23) \<le> t + 1 / 2 \<Longrightarrow> of_int m * pow2 (int 23 - 23) \<le> r3"
    by (rule rnd32_grid [of "t + 1 / 2" 23]) simp_all
  from True have "100 \<le> r3"
    using g [of 100] by (simp add: pow2_def)
  then have "100 \<le> \<lfloor>r3\<rfloor>" by (simp add: le_floor_iff)
  with True show ?thesis
    by (simp add: spec_whole_def single_val [OF r3])
next
  case False
  with assms have "0 \<le> t * 10" "t * 10 \<le> 2 ^ 10" by simp_all
  then obtain r1 where r1: "rnd32 (t * 10) = Val r1" "0 \<le> r1" "r1 \<le> 2 ^ 10"
    and g1: "\<And>m. of_int m * pow2 (int 10 - 23) \<le> t * 10 \<Longrightarrow> of_int m * pow2 (int 10 - 23) \<le> r1"
    by (rule rnd32_grid [of "t * 10" 10]) simp_all
  from assms(1) have "1999 / 2 \<le> r1"
    using g1 [of 8187904] by (simp add: pow2_def)
  with r1 have "0 \<le> r1 + 1 / 2" "r1 + 1 / 2 \<le> 2 ^ 11" "1000 \<le> r1 + 1 / 2" by simp_all
  then obtain r2 where r2: "rnd32 (r1 + 1 / 2) = Val r2"
    and "1000 \<le> r2"
  proof -
    assume a: "\<And>r2. rnd32 (r1 + 1 / 2) = Val r2 \<Longrightarrow> 1000 \<le> r2 \<Longrightarrow> thesis"
    from \<open>0 \<le> r1 + 1 / 2\<close> \<open>r1 + 1 / 2 \<le> 2 ^ 11\<close>
    obtain r2 where r2: "rnd32 (r1 + 1 / 2) = Val r2"
      and g2: "\<And>m. of_int m * pow2 (int 11 - 23) \<le> r1 + 1 / 2 \<Longrightarrow> of_int m * pow2 (int 11 - 23) \<le> r2"
      by (rule rnd32_grid [of "r1 + 1 / 2" 11]) simp_all
    from \<open>1000 \<le> r1 + 1 / 2\<close> have "1000 \<le> r2"
      using g2 [of 4096000] by (simp add: pow2_def)
    with r2 show thesis by (rule a)
  qed
  then have k: "1000 \<le> \<lfloor>r2\<rfloor>" by (simp add: le_floor_iff)
  then have "0 \<le> \<lfloor>r2\<rfloor>" by linarith
  then have "\<lfloor>r2\<rfloor> sdiv 10 = \<lfloor>r2\<rfloor> div 10" by (rule sdiv_nonneg) simp
  with div10_ge [OF k] have "100 \<le> \<lfloor>r2\<rfloor> sdiv 10" by (simp only:)
  with False show ?thesis
    by (simp add: spec_whole_def spec_scaledTenths_def single_val [OF r1(1)] single_val [OF r2])
qed

lemma spec_whole_lt_100:
  assumes t0: "0 \<le> t" and "t \<le> 999 / 10"
  shows "spec_whole t < 100"
proof -
  from assms have "0 \<le> t * 10" "t * 10 \<le> 2 ^ 10" by simp_all
  then obtain r1 where r1: "rnd32 (t * 10) = Val r1" "0 \<le> r1"
    and g1: "\<And>m. t * 10 \<le> of_int m * pow2 (int 10 - 23) \<Longrightarrow> r1 \<le> of_int m * pow2 (int 10 - 23)"
    by (rule rnd32_grid [of "t * 10" 10]) simp_all
  from assms(2) have "r1 \<le> 999"
    using g1 [of 8183808] by (simp add: pow2_def)
  with r1 have b: "0 \<le> r1 + 1 / 2" "r1 + 1 / 2 \<le> 2 ^ 10" "r1 + 1 / 2 \<le> 1999 / 2" by simp_all
  from b(1,2) obtain r2 where r2: "rnd32 (r1 + 1 / 2) = Val r2" "0 \<le> r2"
    and g2: "\<And>m. r1 + 1 / 2 \<le> of_int m * pow2 (int 10 - 23) \<Longrightarrow> r2 \<le> of_int m * pow2 (int 10 - 23)"
    by (rule rnd32_grid [of "r1 + 1 / 2" 10]) simp_all
  from b(3) have "r2 \<le> 1999 / 2"
    using g2 [of 8187904] by (simp add: pow2_def)
  then have "r2 < 1000" by simp
  then have k: "\<lfloor>r2\<rfloor> < 1000" by (simp add: floor_less_iff)
  from r2(2) have "0 \<le> \<lfloor>r2\<rfloor>" by simp
  then have "\<lfloor>r2\<rfloor> sdiv 10 = \<lfloor>r2\<rfloor> div 10" by (rule sdiv_nonneg) simp
  with div10_lt [OF k] have "\<lfloor>r2\<rfloor> sdiv 10 < 100" by (simp only:)
  moreover from assms(2) have "\<not> 100 \<le> t" by simp
  ultimately show ?thesis
    by (simp add: spec_whole_def spec_scaledTenths_def single_val [OF r1(1)] single_val [OF r2(1)])
qed

lemma spec_whole_rounds:
  assumes "100 \<le> t" and tb: "t \<le> 2 ^ 22"
  shows "\<lfloor>t + 1 / 2\<rfloor> \<le> spec_whole t \<and> spec_whole t \<le> \<lfloor>t + 1 / 2\<rfloor> + 1"
proof -
  from assms have "0 \<le> t + 1 / 2" "t + 1 / 2 \<le> 2 ^ 23" by simp_all
  then obtain r3 where r3: "rnd32 (t + 1 / 2) = Val r3"
    and le: "\<And>m. t + 1 / 2 \<le> of_int m * pow2 (int 23 - 23) \<Longrightarrow> r3 \<le> of_int m * pow2 (int 23 - 23)"
    and ge: "\<And>m. of_int m * pow2 (int 23 - 23) \<le> t + 1 / 2 \<Longrightarrow> of_int m * pow2 (int 23 - 23) \<le> r3"
    by (rule rnd32_grid [of "t + 1 / 2" 23]) simp_all
  have "of_int \<lfloor>t + 1 / 2\<rfloor> \<le> r3"
    using ge [of "\<lfloor>t + 1 / 2\<rfloor>"] by (simp add: pow2_def)
  then have 1: "\<lfloor>t + 1 / 2\<rfloor> \<le> \<lfloor>r3\<rfloor>" by (simp add: le_floor_iff)
  have "t + 1 / 2 \<le> of_int (\<lfloor>t + 1 / 2\<rfloor> + 1)"
    by (metis floor_correct less_imp_le)
  then have "r3 \<le> of_int (\<lfloor>t + 1 / 2\<rfloor> + 1)"
    using le [of "\<lfloor>t + 1 / 2\<rfloor> + 1"] by (simp add: pow2_def)
  then have 2: "\<lfloor>r3\<rfloor> \<le> \<lfloor>t + 1 / 2\<rfloor> + 1" by (simp add: floor_le_iff)
  from assms(1) 1 2 show ?thesis
    by (simp add: spec_whole_def single_val [OF r3])
qed

lemma dispTemp_temp_Val:
  assumes "(if isFer = 1 then tmpF else tmpC) = Val x"
  shows "dispTemp_temp tmpC tmpF isFer = Val (max 0 x)"
  using assms by (cases "x < 0") (simp_all add: dispTemp_temp_def Let_def max_def)

subsection \<open>The seven-bit mask\<close>

lemma and_7f_int: "(x::int) AND 0x7f = take_bit 7 x"
  by (simp add: take_bit_eq_mask mask_eq_exp_minus_1)

lemma and_7f_word: "(w::32 word) AND 0x7f = take_bit 7 w"
  by (simp add: take_bit_eq_mask mask_eq_exp_minus_1)

lemma and_7f_id: "0 \<le> (a::int) \<Longrightarrow> a \<le> 127 \<Longrightarrow> a AND 0x7f = a"
  unfolding and_7f_int by (simp add: take_bit_int_eq_self)

section \<open>Switch decoding, limit mirroring, decimal points\<close>

text \<open>
  C10. \<open>dispDp\<close> sets the decimal-point mask by the four-row table: both halves at or
  above 100 give bit 1 and bit 5; only the interior gives bit 2 and bit 5; only the
  exterior gives bit 1 and bit 6; neither gives bit 2 and bit 6. The digit cells are
  not touched.
\<close>

theorem dispDp_table:
  "dp (dispDp s True True) = 0x22 \<and> dp (dispDp s True False) = 0x24 \<and>
   dp (dispDp s False True) = 0x42 \<and> dp (dispDp s False False) = 0x44 \<and>
   dp (dispDp s False False) = push_bit 2 1 OR push_bit 6 1 \<and>
   digit (dispDp s a b) = digit s"
  by (simp add: dispDp_def set_dp_def)

text \<open>
  C8. For every switch word, \<open>getTempLimit\<close> returns \<open>word & 0x7F\<close> for the exterior
  side (any selector other than 1) and \<open>(word >> 8) & 0x7F\<close> for the interior side
  (selector 1), although it shifts the word as a signed \<^verbatim>\<open>int\<close>; the result lies
  between 0 and 127.
\<close>

theorem getTempLimit_masks:
  "getTempLimit g segsSel =
     (if segsSel = 1 then uint (drop_bit 8 (sw g) AND 0x7F) else uint (sw g AND 0x7F)) \<and>
   0 \<le> getTempLimit g segsSel \<and> getTempLimit g segsSel \<le> 127"
proof -
  have eq: "getTempLimit g segsSel =
     (if segsSel = 1 then uint (drop_bit 8 (sw g) AND 0x7F) else uint (sw g AND 0x7F))"
    unfolding getTempLimit_def read_sw_def Let_def and_7f_int and_7f_word
    by (auto intro!: bit_eqI simp add: bit_simps)
  have "0 \<le> uint (take_bit 7 w) \<and> uint (take_bit 7 w) \<le> 127" for w :: "32 word"
    using take_bit_int_less_exp [of 7 "uint w"] by (simp add: unsigned_take_bit_eq)
  with eq show ?thesis
    by (simp add: and_7f_word)
qed

text \<open>
  C9. For limits \<open>a\<close> and \<open>b\<close> between 0 and 127, \<open>dispTempLimit\<close> writes
  \<open>(b << 8) | a\<close> to the LED port, which is the number \<open>256 * b + a\<close>: bit \<open>n\<close> of
  the output is bit \<open>n\<close> of \<open>a\<close> for \<open>n < 7\<close>, bit \<open>n - 8\<close> of \<open>b\<close> for
  \<open>8 \<le> n < 15\<close>, and zero otherwise.
\<close>

theorem dispTempLimit_packs:
  assumes "0 \<le> a" "a \<le> 127" "0 \<le> b" "b \<le> 127"
  shows "ledOutput (dispTempLimit led a b) = push_bit 8 (word_of_int b) OR word_of_int a \<and>
    uint (ledOutput (dispTempLimit led a b)) = b * 256 + a \<and>
    bit (ledOutput (dispTempLimit led a b)) n =
      (n < 7 \<and> bit a n \<or> 8 \<le> n \<and> n < 15 \<and> bit b (n - 8))"
proof -
  have 1: "ledOutput (dispTempLimit led a b) = push_bit 8 (word_of_int b) OR word_of_int a"
    using assms
    by (simp add: dispTempLimit_def write_led_def Let_def and_7f_id of_int_or_eq or.commute
        push_bit_of_int)
  have 3: "bit (ledOutput (dispTempLimit led a b)) n =
      (n < 7 \<and> bit a n \<or> 8 \<le> n \<and> n < 15 \<and> bit b (n - 8))"
    unfolding dispTempLimit_def write_led_def Let_def and_7f_int
    by (auto simp add: bit_simps)
  have "a + push_bit 8 b = a OR push_bit 8 b"
  proof (rule disjunctive_add_eq_or)
    from assms have "take_bit 8 a = a" by (simp add: take_bit_int_eq_self)
    then have "a AND push_bit 8 b = take_bit 8 a AND push_bit 8 b" by simp
    also have "\<dots> = 0"
      by (rule bit_eqI) (auto simp add: bit_simps)
    finally show "a AND push_bit 8 b = 0" .
  qed
  then have "a OR push_bit 8 b = b * 256 + a" by (simp add: push_bit_eq_mult)
  moreover have "uint (ledOutput (dispTempLimit led a b)) = take_bit 32 (a OR push_bit 8 b)"
    using assms by (simp add: dispTempLimit_def write_led_def Let_def and_7f_id uint_word_of_int take_bit_eq_mod)
  moreover from assms have "take_bit 32 (b * 256 + a) = b * 256 + a"
    by (simp add: take_bit_int_eq_self)
  ultimately have 2: "uint (ledOutput (dispTempLimit led a b)) = b * 256 + a" by simp
  from 1 2 3 show ?thesis by simp
qed

text \<open>The limits of the tester, \<open>0x12\<close> and \<open>0x34\<close>, give the LED word \<open>0x3412\<close>.\<close>

theorem dispTempLimit_packs_witness:
  "(0::int) \<le> 0x12 \<and> (0x12::int) \<le> 127 \<and> (0::int) \<le> 0x34 \<and> (0x34::int) \<le> 127 \<and>
   ledOutput (dispTempLimit \<lparr>ledOutput = 0\<rparr> 0x12 0x34) = 0x3412 \<and>
   uint (ledOutput (dispTempLimit \<lparr>ledOutput = 0\<rparr> 0x12 0x34)) = 0x3412"
  using dispTempLimit_packs [of "0x12" "0x34" "\<lparr>ledOutput = 0\<rparr>" 0]
  by simp

section \<open>The temperature display\<close>

text \<open>
  A call of \<open>dispTemp\<close> has a result exactly when the conversions of lines 157 and 159
  are defined, that is when \<open>dispTemp_whole\<close> of the selected and clamped temperature is
  \<open>Some whole\<close>; by \<open>dispTemp_defined\<close> that is so for every finite selected temperature
  up to \<open>2^25\<close> degrees. The display has its eight cells.
\<close>

text \<open>
  C2. For every finite selected temperature up to \<open>2^22\<close> degrees (a negative one is
  clamped to 0) \<open>dispTemp\<close> has a result, and it returns true if and only if the
  rounded whole-degree value is at least 100: the returned flag is the truth value of
  \<open>100 \<le> spec_whole\<close>, where \<open>spec_whole\<close> is the whole-degree value in the spec's
  words. When it returns true the cells of its half hold, from position 3 down to
  position 1, the hundreds, tens and ones digit of that value, and position 0 the unit
  glyph: no cell holds the tenths digit. The flag is true for every temperature from
  99.95 degrees on and false for every temperature up to 99.9 degrees, and from 100
  degrees on the value shown is the temperature rounded half up (one more when the
  single-precision sum \<open>temp + 0.5\<close> rounds up to the next integer).
\<close>

theorem dispTemp_isHundred:
  assumes len: "length (digit sseg) = 8"
    and sel: "(if isFer = 1 then tmpF else tmpC) = Val x"
    and rng: "x \<le> 2 ^ 22"
  shows "map_option snd (dispTemp sseg tmpC tmpF isFer segsSel) =
      Some (100 \<le> spec_whole (max 0 x)) \<and>
    0 \<le> spec_whole (max 0 x) \<and>
    (if 100 \<le> spec_whole (max 0 x) then
       dispTemp sseg tmpC tmpF isFer segsSel =
         Some (sseg\<lparr>digit := (digit sseg)
           [nat (3 + dispTemp_posAdj segsSel) :=
              word_of_int ((spec_whole (max 0 x) div 100) mod 10),
            nat (2 + dispTemp_posAdj segsSel) :=
              word_of_int ((spec_whole (max 0 x) div 10) mod 10),
            nat (1 + dispTemp_posAdj segsSel) := word_of_int (spec_whole (max 0 x) mod 10),
            nat (dispTemp_posAdj segsSel) := (if isFer = 1 then 0x0F else 0x0C)]\<rparr>, True)
     else map_option snd (dispTemp sseg tmpC tmpF isFer segsSel) = Some False) \<and>
    (x < 9995 / 100 \<or> 100 \<le> spec_whole (max 0 x)) \<and>
    (999 / 10 < x \<or> spec_whole (max 0 x) < 100) \<and>
    (x < 100 \<or>
      \<lfloor>x + 1 / 2\<rfloor> \<le> spec_whole (max 0 x) \<and> spec_whole (max 0 x) \<le> \<lfloor>x + 1 / 2\<rfloor> + 1)"
proof -
  define t where "t = max 0 x"
  have t: "dispTemp_temp tmpC tmpF isFer = Val t"
    unfolding t_def using sel by (rule dispTemp_temp_Val)
  have t0: "0 \<le> t" and tb: "t \<le> 2 ^ 22"
    using rng by (simp_all add: t_def)
  from spec_refines [OF t0 tb]
  have ti: "dispTemp_tempInt (dispTemp_temp tmpC tmpF isFer) = Some (spec_scaledTenths t)"
    and w: "dispTemp_whole (dispTemp_temp tmpC tmpF isFer) = Some (spec_whole t)"
    by (simp_all add: t)
  have w0: "0 \<le> spec_whole t"
    using temp_not_neg w by (rule whole_nonneg)
  have r: "map_option snd (dispTemp sseg tmpC tmpF isFer segsSel) = Some (100 \<le> spec_whole t)"
    by (simp add: dispTemp_ret w)
  have cells: "if 100 \<le> spec_whole t then
       dispTemp sseg tmpC tmpF isFer segsSel =
         Some (sseg\<lparr>digit := (digit sseg)
           [nat (3 + dispTemp_posAdj segsSel) := word_of_int ((spec_whole t div 100) mod 10),
            nat (2 + dispTemp_posAdj segsSel) := word_of_int ((spec_whole t div 10) mod 10),
            nat (1 + dispTemp_posAdj segsSel) := word_of_int (spec_whole t mod 10),
            nat (dispTemp_posAdj segsSel) := (if isFer = 1 then 0x0F else 0x0C)]\<rparr>, True)
     else map_option snd (dispTemp sseg tmpC tmpF isFer segsSel) = Some False"
  proof (cases "100 \<le> spec_whole t")
    case True
    with w0 show ?thesis
      using dispTemp_eq [OF len ti w, of segsSel]
      by (simp add: digit_sdiv_smod digit_smod h2s_glyph)
  next
    case False
    with r show ?thesis by simp
  qed
  have a: "x < 9995 / 100 \<or> 100 \<le> spec_whole t"
  proof (cases "x < 9995 / 100")
    case False
    then have "t = x" by (simp add: t_def)
    with False tb show ?thesis
      using spec_whole_ge_100 [of t] by simp
  qed simp
  have b: "999 / 10 < x \<or> spec_whole t < 100"
  proof (cases "999 / 10 < x")
    case False
    then have "t \<le> 999 / 10" by (simp add: t_def)
    with t0 show ?thesis
      using spec_whole_lt_100 [of t] by simp
  qed simp
  have c: "x < 100 \<or> \<lfloor>x + 1 / 2\<rfloor> \<le> spec_whole t \<and> spec_whole t \<le> \<lfloor>x + 1 / 2\<rfloor> + 1"
  proof (cases "x < 100")
    case False
    then have "t = x" by (simp add: t_def)
    with False tb show ?thesis
      using spec_whole_rounds [of t] by simp
  qed simp
  from r w0 cells a b c show ?thesis
    unfolding t_def by (intro conjI)
qed

text \<open>
  The tester's case 6: 39.24 degrees Celsius is 102.632 degrees Fahrenheit, with
  \<open>scaledTenths = 1026\<close>; the display shows 1, 0, 3, the rounded value, not 1, 0, 2.
\<close>

theorem dispTemp_isHundred_witness:
  "length (digit (clearDisp sseg0)) = 8 \<and>
   cel2fer (rnd32 (3924 / 100)) = Val (6726091 / 65536) \<and>
   (6726091 / 65536 :: rat) \<le> 2 ^ 22 \<and>
   spec_scaledTenths (max 0 (6726091 / 65536)) = 1026 \<and>
   spec_whole (max 0 (6726091 / 65536)) = 103 \<and>
   dispTemp (clearDisp sseg0) (rnd32 (3924 / 100)) (cel2fer (rnd32 (3924 / 100))) 1 0 =
     Some (\<lparr>digit = [0x0F, 3, 0, 1, 255, 255, 255, 255], dp = 0\<rparr>, True)"
proof -
  have h1: "length (digit (clearDisp sseg0)) = 8"
    by code_simp
  have v: "cel2fer (rnd32 (3924 / 100)) = Val (6726091 / 65536)"
    by code_simp
  then have h2: "(if (1::int) = 1 then cel2fer (rnd32 (3924 / 100)) else rnd32 (3924 / 100)) =
      Val (6726091 / 65536)"
    by simp
  have h3: "(6726091 / 65536 :: rat) \<le> 2 ^ 22"
    by simp
  have st: "spec_scaledTenths (max 0 (6726091 / 65536)) = 1026"
    by code_simp
  have sw: "spec_whole (max 0 (6726091 / 65536)) = 103"
    by code_simp
  have c: "(clearDisp sseg0)\<lparr>digit := (digit (clearDisp sseg0))
      [nat (3 + dispTemp_posAdj 0) := word_of_int ((103 div 100) mod 10),
       nat (2 + dispTemp_posAdj 0) := word_of_int ((103 div 10) mod 10),
       nat (1 + dispTemp_posAdj 0) := word_of_int (103 mod 10),
       nat (dispTemp_posAdj 0) := (if (1::int) = 1 then 0x0F else 0x0C)]\<rparr> =
     \<lparr>digit = [0x0F, 3, 0, 1, 255, 255, 255, 255], dp = 0\<rparr>"
    by code_simp
  from dispTemp_isHundred [OF h1 h2 h3, of 0]
  have "dispTemp (clearDisp sseg0) (rnd32 (3924 / 100)) (cel2fer (rnd32 (3924 / 100))) 1 0 =
     Some (\<lparr>digit = [0x0F, 3, 0, 1, 255, 255, 255, 255], dp = 0\<rparr>, True)"
    unfolding sw c by simp
  with h1 v h3 st sw show ?thesis by (intro conjI)
qed

text \<open>
  C1, amended. For every selected temperature whose whole-degree value \<open>whole\<close> is
  below 100 (rather than every temperature below 100), \<open>dispTemp\<close> returns false and
  writes position 2 = ones digit of \<open>whole\<close>, position 1 = tenths digit
  (\<open>tempInt mod 10\<close>), position 3 = tens digit when \<open>whole \<ge> 10\<close> and the blank pattern
  \<open>0xFF\<close> otherwise, position 0 = unit glyph.
\<close>

theorem dispTemp_below_hundred:
  assumes len: "length (digit sseg) = 8"
    and ti: "dispTemp_tempInt (dispTemp_temp tmpC tmpF isFer) = Some tempInt"
    and w: "dispTemp_whole (dispTemp_temp tmpC tmpF isFer) = Some whole"
    and lt: "whole < 100"
  shows "0 \<le> whole \<and> 0 \<le> tempInt \<and>
    dispTemp sseg tmpC tmpF isFer segsSel =
      Some (sseg\<lparr>digit := (digit sseg)
        [nat (3 + dispTemp_posAdj segsSel) :=
           (if 10 \<le> whole then word_of_int ((whole div 10) mod 10) else 0xFF),
         nat (2 + dispTemp_posAdj segsSel) := word_of_int (whole mod 10),
         nat (1 + dispTemp_posAdj segsSel) := word_of_int (tempInt mod 10),
         nat (dispTemp_posAdj segsSel) := (if isFer = 1 then 0x0F else 0x0C)]\<rparr>, False)"
proof -
  have w0: "0 \<le> whole"
    using temp_not_neg w by (rule whole_nonneg)
  have t0: "0 \<le> tempInt"
    using temp_not_neg ti by (rule tempInt_nonneg)
  from w0 t0 lt show ?thesis
    using dispTemp_eq [OF len ti w, of segsSel]
    by (simp add: digit_sdiv_smod digit_smod h2s_glyph BLANK_def)
qed

text \<open>
  The tester's case 1: 9.76 degrees in Celsius mode on the left half gives position 3
  blank, position 2 = 9, position 1 = 8, position 0 = \<open>0x0C\<close>, and the flag false.
\<close>

theorem dispTemp_below_hundred_witness:
  "length (digit (clearDisp sseg0)) = 8 \<and>
   dispTemp_tempInt (dispTemp_temp (rnd32 (976 / 100)) (cel2fer (rnd32 (976 / 100))) 0) = Some 98 \<and>
   dispTemp_whole (dispTemp_temp (rnd32 (976 / 100)) (cel2fer (rnd32 (976 / 100))) 0) = Some 9 \<and>
   (9::int) < 100 \<and>
   dispTemp (clearDisp sseg0) (rnd32 (976 / 100)) (cel2fer (rnd32 (976 / 100))) 0 1 =
     Some (\<lparr>digit = [255, 255, 255, 255, 0x0C, 8, 9, 0xFF], dp = 0\<rparr>, False)"
proof -
  have h1: "length (digit (clearDisp sseg0)) = 8"
    by code_simp
  have h2: "dispTemp_tempInt (dispTemp_temp (rnd32 (976 / 100)) (cel2fer (rnd32 (976 / 100))) 0) = Some 98"
    by code_simp
  have h3: "dispTemp_whole (dispTemp_temp (rnd32 (976 / 100)) (cel2fer (rnd32 (976 / 100))) 0) = Some 9"
    by code_simp
  have h4: "(9::int) < 100"
    by simp
  have c: "(clearDisp sseg0)\<lparr>digit := (digit (clearDisp sseg0))
      [nat (3 + dispTemp_posAdj 1) := (if (10::int) \<le> 9 then word_of_int ((9 div 10) mod 10) else 0xFF),
       nat (2 + dispTemp_posAdj 1) := word_of_int (9 mod 10),
       nat (1 + dispTemp_posAdj 1) := word_of_int (98 mod 10),
       nat (dispTemp_posAdj 1) := (if (0::int) = 1 then 0x0F else 0x0C)]\<rparr> =
     \<lparr>digit = [255, 255, 255, 255, 0x0C, 8, 9, 0xFF], dp = 0\<rparr>"
    by code_simp
  from dispTemp_below_hundred [OF h1 h2 h3 h4, of 1]
  have "dispTemp (clearDisp sseg0) (rnd32 (976 / 100)) (cel2fer (rnd32 (976 / 100))) 0 1 =
     Some (\<lparr>digit = [255, 255, 255, 255, 0x0C, 8, 9, 0xFF], dp = 0\<rparr>, False)"
    unfolding c by simp
  with h1 h2 h3 show ?thesis by simp
qed

text \<open>
  C1 as stated fails at the tester's case 4: 37.75 degrees Celsius is 99.95 degrees
  Fahrenheit in single precision, a temperature that is not negative and strictly below
  100; yet \<open>whole\<close> is 100, the flag is true and position 3 holds 1, the hundreds digit,
  where the claim has the tens digit 0.
\<close>

theorem dispTemp_below_100_counterexample:
  "\<not> flt (dispTemp_temp (rnd32 (3775 / 100)) (cel2fer (rnd32 (3775 / 100))) 1) (Val 0) \<and>
   flt (dispTemp_temp (rnd32 (3775 / 100)) (cel2fer (rnd32 (3775 / 100))) 1) (Val 100) \<and>
   dispTemp_tempInt (dispTemp_temp (rnd32 (3775 / 100)) (cel2fer (rnd32 (3775 / 100))) 1) = Some 1000 \<and>
   dispTemp_whole (dispTemp_temp (rnd32 (3775 / 100)) (cel2fer (rnd32 (3775 / 100))) 1) = Some 100 \<and>
   dispTemp (clearDisp sseg0) (rnd32 (3775 / 100)) (cel2fer (rnd32 (3775 / 100))) 1 0 =
     Some (\<lparr>digit = [0x0F, 0, 0, 1, 255, 255, 255, 255], dp = 0\<rparr>, True) \<and>
   digit \<lparr>digit = [0x0F, 0, 0, 1, 255, 255, 255, 255], dp = 0\<rparr> ! 3 \<noteq> h2s ((100 sdiv 10) smod 10)"
  by code_simp

text \<open>
  C3. In single precision the temperature 99.95 (the \<^verbatim>\<open>float\<close> nearest to it, which is
  below 100) gives \<open>tempInt = 1000\<close> and \<open>whole = 100\<close>; \<open>dispTemp\<close> returns true and
  shows 1, 0, 0 at positions 3, 2, 1 with the unit glyph at position 0 and no tenths
  digit, in Celsius mode on the right half and in Fahrenheit mode on the left half.
\<close>

theorem dispTemp_9995:
  "flt (rnd32 (9995 / 100)) (Val 100) \<and>
   dispTemp_tempInt (rnd32 (9995 / 100)) = Some 1000 \<and>
   dispTemp_whole (rnd32 (9995 / 100)) = Some 100 \<and>
   dispTemp (clearDisp sseg0) (rnd32 (9995 / 100)) other 0 0 =
     Some (\<lparr>digit = [0x0C, 0, 0, 1, 255, 255, 255, 255], dp = 0\<rparr>, True) \<and>
   dispTemp (clearDisp sseg0) other (rnd32 (9995 / 100)) 1 1 =
     Some (\<lparr>digit = [255, 255, 255, 255, 0x0F, 0, 0, 1], dp = 0\<rparr>, True)"
  by code_simp

text \<open>
  Whenever a call of \<open>dispTemp\<close> has a result, it has the frame property below; the
  theorem after it adds that the result exists.
\<close>

lemma dispTemp_frame_if_defined:
  assumes len: "length (digit sseg) = 8" and len2: "length (digit sseg2) = 8"
    and d: "dispTemp sseg tmpC tmpF isFer segsSel = Some (s', r)"
  shows "dp s' = dp sseg \<and> length (digit s') = 8 \<and>
     take (nat (dispTemp_posAdj segsSel)) (digit s') =
       take (nat (dispTemp_posAdj segsSel)) (digit sseg) \<and>
     drop (nat (dispTemp_posAdj segsSel) + 4) (digit s') =
       drop (nat (dispTemp_posAdj segsSel) + 4) (digit sseg) \<and>
     (digit s' ! (nat (dispTemp_posAdj segsSel) + 3) = 0xFF \<or>
      uint (digit s' ! (nat (dispTemp_posAdj segsSel) + 3)) \<le> 9) \<and>
     (\<exists>s2'. dispTemp sseg2 tmpC tmpF isFer segsSel = Some (s2', r) \<and>
        take 4 (drop (nat (dispTemp_posAdj segsSel)) (digit s2')) =
        take 4 (drop (nat (dispTemp_posAdj segsSel)) (digit s')))"
proof -
  from d obtain tempInt whole
    where ti: "dispTemp_tempInt (dispTemp_temp tmpC tmpF isFer) = Some tempInt"
      and w: "dispTemp_whole (dispTemp_temp tmpC tmpF isFer) = Some whole"
    using dispTemp_SomeD by blast
  have w0: "0 \<le> whole"
    using temp_not_neg w by (rule whole_nonneg)
  define c3 where "c3 = (if 100 \<le> whole then h2s ((whole sdiv 100) smod 10)
          else if 10 \<le> whole then h2s ((whole sdiv 10) smod 10) else BLANK)"
  define c2 where "c2 = (if 100 \<le> whole then h2s ((whole sdiv 10) smod 10) else h2s (whole smod 10))"
  define c1 where "c1 = (if 100 \<le> whole then h2s (whole smod 10) else h2s (tempInt smod 10))"
  define c0 where "c0 = (if isFer = 1 then h2s 0x0F else h2s 0x0C)"
  have c3: "c3 = 0xFF \<or> uint c3 \<le> 9"
    unfolding c3_def using w0 by (rule cell3_digit_or_blank)
  from list8 [OF len] obtain a0 a1 a2 a3 a4 a5 a6 a7
    where xs: "digit sseg = [a0, a1, a2, a3, a4, a5, a6, a7]" by blast
  from list8 [OF len2] obtain b0 b1 b2 b3 b4 b5 b6 b7
    where ys: "digit sseg2 = [b0, b1, b2, b3, b4, b5, b6, b7]" by blast
  have eq: "dispTemp ss tmpC tmpF isFer segsSel = Some (ss\<lparr>digit := (digit ss)
       [nat (3 + dispTemp_posAdj segsSel) := c3, nat (2 + dispTemp_posAdj segsSel) := c2,
        nat (1 + dispTemp_posAdj segsSel) := c1, nat (dispTemp_posAdj segsSel) := c0]\<rparr>,
       100 \<le> whole)" if "length (digit ss) = 8" for ss
    unfolding c3_def c2_def c1_def c0_def using that ti w by (rule dispTemp_eq)
  from d eq [OF len]
  have s': "s' = sseg\<lparr>digit := (digit sseg)
       [nat (3 + dispTemp_posAdj segsSel) := c3, nat (2 + dispTemp_posAdj segsSel) := c2,
        nat (1 + dispTemp_posAdj segsSel) := c1, nat (dispTemp_posAdj segsSel) := c0]\<rparr>"
    and r: "r = (100 \<le> whole)"
    by simp_all
  from eq [OF len2]
  have s2: "dispTemp sseg2 tmpC tmpF isFer segsSel = Some (sseg2\<lparr>digit := (digit sseg2)
       [nat (3 + dispTemp_posAdj segsSel) := c3, nat (2 + dispTemp_posAdj segsSel) := c2,
        nat (1 + dispTemp_posAdj segsSel) := c1, nat (dispTemp_posAdj segsSel) := c0]\<rparr>, r)"
    by (simp add: r)
  from posAdj_cases [of segsSel] show ?thesis
  proof
    assume p: "dispTemp_posAdj segsSel = 0"
    from c3 show ?thesis
      by (simp add: s2 s' p xs ys)
  next
    assume p: "dispTemp_posAdj segsSel = 4"
    from c3 show ?thesis
      by (simp add: s2 s' p xs ys)
  qed
qed

text \<open>
  C5. For every finite selected temperature up to \<open>2^25\<close> degrees a call of \<open>dispTemp\<close>
  has a result; it leaves the decimal-point mask and the four cells of the other half as
  they were, and the four cells of its own half, position 3 among them, do not depend
  on what the display held before: started on any other display, the call returns the
  same flag and leaves the same four cells. Position 3 holds a digit or the blank
  pattern.
\<close>

theorem dispTemp_frame:
  assumes len: "length (digit sseg) = 8" and len2: "length (digit sseg2) = 8"
    and sel: "(if isFer = 1 then tmpF else tmpC) = Val x"
    and rng: "x \<le> 2 ^ 25"
  shows "\<exists>s' r. dispTemp sseg tmpC tmpF isFer segsSel = Some (s', r) \<and>
     dp s' = dp sseg \<and> length (digit s') = 8 \<and>
     take (nat (dispTemp_posAdj segsSel)) (digit s') =
       take (nat (dispTemp_posAdj segsSel)) (digit sseg) \<and>
     drop (nat (dispTemp_posAdj segsSel) + 4) (digit s') =
       drop (nat (dispTemp_posAdj segsSel) + 4) (digit sseg) \<and>
     (digit s' ! (nat (dispTemp_posAdj segsSel) + 3) = 0xFF \<or>
      uint (digit s' ! (nat (dispTemp_posAdj segsSel) + 3)) \<le> 9) \<and>
     (\<exists>s2'. dispTemp sseg2 tmpC tmpF isFer segsSel = Some (s2', r) \<and>
        take 4 (drop (nat (dispTemp_posAdj segsSel)) (digit s2')) =
        take 4 (drop (nat (dispTemp_posAdj segsSel)) (digit s')))"
proof -
  from dispTemp_defined [OF sel rng, of sseg segsSel]
  obtain s' r where d: "dispTemp sseg tmpC tmpF isFer segsSel = Some (s', r)"
    by (cases "dispTemp sseg tmpC tmpF isFer segsSel") auto
  from dispTemp_frame_if_defined [OF len len2 d] d show ?thesis
    by blast
qed

text \<open>
  The tester's case 8, a three-digit temperature (105.49 degrees Celsius shown as 221.882
  degrees Fahrenheit), on a cleared display and on a display of zeros: position 3 of the
  left half holds the hundreds digit 2 in both, the right half keeps what it held.
\<close>

theorem dispTemp_frame_witness:
  "length (digit (clearDisp sseg0)) = 8 \<and> length (digit sseg0) = 8 \<and>
   cel2fer (rnd32 (10549 / 100)) = Val (7270629 / 32768) \<and>
   (7270629 / 32768 :: rat) \<le> 2 ^ 25 \<and>
   dispTemp (clearDisp sseg0) (rnd32 (10549 / 100)) (cel2fer (rnd32 (10549 / 100))) 1 1 =
     Some (\<lparr>digit = [255, 255, 255, 255, 0x0F, 2, 2, 2], dp = 0\<rparr>, True) \<and>
   dispTemp sseg0 (rnd32 (10549 / 100)) (cel2fer (rnd32 (10549 / 100))) 1 1 =
     Some (\<lparr>digit = [0, 0, 0, 0, 0x0F, 2, 2, 2], dp = 0\<rparr>, True) \<and>
   dp \<lparr>digit = [255, 255, 255, 255, 0x0F, 2, 2, 2], dp = 0\<rparr> = dp (clearDisp sseg0)"
proof -
  have h1: "length (digit (clearDisp sseg0)) = 8"
    by code_simp
  have h2: "length (digit sseg0) = 8"
    by code_simp
  have v: "cel2fer (rnd32 (10549 / 100)) = Val (7270629 / 32768)"
    by code_simp
  then have h3: "(if (1::int) = 1 then cel2fer (rnd32 (10549 / 100)) else rnd32 (10549 / 100)) =
      Val (7270629 / 32768)"
    by simp
  have h4: "(7270629 / 32768 :: rat) \<le> 2 ^ 25"
    by simp
  have d: "dispTemp (clearDisp sseg0) (rnd32 (10549 / 100)) (cel2fer (rnd32 (10549 / 100))) 1 1 =
     Some (\<lparr>digit = [255, 255, 255, 255, 0x0F, 2, 2, 2], dp = 0\<rparr>, True)"
    by code_simp
  have d2: "dispTemp sseg0 (rnd32 (10549 / 100)) (cel2fer (rnd32 (10549 / 100))) 1 1 =
     Some (\<lparr>digit = [0, 0, 0, 0, 0x0F, 2, 2, 2], dp = 0\<rparr>, True)"
    by code_simp
  from dispTemp_frame [OF h1 h2 h3 h4, of 1]
  have "dp \<lparr>digit = [255, 255, 255, 255, 0x0F, 2, 2, 2], dp = 0\<rparr> = dp (clearDisp sseg0)"
    unfolding d by auto
  with h1 h2 v h4 d d2 show ?thesis by (intro conjI)
qed

text \<open>
  C6. When the selected temperature is negative \<open>dispTemp\<close> works on the value 0: it
  shows the blank pattern at position 3, 0 at positions 2 and 1 and the unit glyph at
  position 0, and returns false. The temperature that is decomposed is never negative,
  whatever the arguments.
\<close>

theorem dispTemp_negative_clamp:
  assumes len: "length (digit sseg) = 8"
    and neg: "flt (if isFer = 1 then tmpF else tmpC) (Val 0)"
  shows "dispTemp_temp tmpC tmpF isFer = Val 0 \<and>
    dispTemp sseg tmpC tmpF isFer segsSel =
      Some (sseg\<lparr>digit := (digit sseg)
        [nat (3 + dispTemp_posAdj segsSel) := 0xFF,
         nat (2 + dispTemp_posAdj segsSel) := 0,
         nat (1 + dispTemp_posAdj segsSel) := 0,
         nat (dispTemp_posAdj segsSel) := (if isFer = 1 then 0x0F else 0x0C)]\<rparr>, False) \<and>
    \<not> flt (dispTemp_temp tmpC' tmpF' isFer') (Val 0)"
proof -
  from neg have t: "dispTemp_temp tmpC tmpF isFer = Val 0"
    by (simp add: dispTemp_temp_def Let_def)
  have ti: "dispTemp_tempInt (dispTemp_temp tmpC tmpF isFer) = Some 0"
    by (simp add: t tempInt_zero)
  have w: "dispTemp_whole (dispTemp_temp tmpC tmpF isFer) = Some 0"
    by (simp add: t whole_zero)
  show ?thesis
    using dispTemp_eq [OF len ti w, of segsSel]
    by (simp add: t temp_not_neg h2s_glyph BLANK_def h2s_def)
qed

text \<open>The tester's case 9: -5.32 degrees in Celsius mode shows 0.0.\<close>

theorem dispTemp_negative_clamp_witness:
  "length (digit (clearDisp sseg0)) = 8 \<and>
   flt (rnd32 (- 532 / 100)) (Val 0) \<and>
   dispTemp (clearDisp sseg0) (rnd32 (- 532 / 100)) (cel2fer (rnd32 (- 532 / 100))) 0 1 =
     Some (\<lparr>digit = [255, 255, 255, 255, 0x0C, 0, 0, 0xFF], dp = 0\<rparr>, False)"
proof -
  have h1: "length (digit (clearDisp sseg0)) = 8"
    by code_simp
  have f: "flt (rnd32 (- 532 / 100)) (Val 0)"
    by code_simp
  then have h2: "flt (if (0::int) = 1 then cel2fer (rnd32 (- 532 / 100)) else rnd32 (- 532 / 100)) (Val 0)"
    by simp
  have c: "(clearDisp sseg0)\<lparr>digit := (digit (clearDisp sseg0))
      [nat (3 + dispTemp_posAdj 1) := 0xFF,
       nat (2 + dispTemp_posAdj 1) := 0,
       nat (1 + dispTemp_posAdj 1) := 0,
       nat (dispTemp_posAdj 1) := (if (0::int) = 1 then 0x0F else 0x0C)]\<rparr> =
     \<lparr>digit = [255, 255, 255, 255, 0x0C, 0, 0, 0xFF], dp = 0\<rparr>"
    by code_simp
  from dispTemp_negative_clamp [OF h1 h2, of 1]
  have "dispTemp (clearDisp sseg0) (rnd32 (- 532 / 100)) (cel2fer (rnd32 (- 532 / 100))) 0 1 =
     Some (\<lparr>digit = [255, 255, 255, 255, 0x0C, 0, 0, 0xFF], dp = 0\<rparr>, False)"
    unfolding c by simp
  with h1 f show ?thesis by simp
qed

text \<open>
  C7. The result of \<open>dispTemp\<close> does not depend on the temperature that is not
  selected: in Fahrenheit mode (\<open>isFer = 1\<close>) any two values of \<open>tmpC\<close> give the same
  display and the same flag, in Celsius mode (\<open>isFer = 0\<close>) any two values of
  \<open>tmpF\<close> do; the clamp at zero is applied to the selected value alone: in the tester's
  case 10 the Celsius value -5.32 is negative and the Fahrenheit display is 22.4.
\<close>

theorem dispTemp_selected_only:
  "dispTemp sseg tmpC tmpF 1 segsSel = dispTemp sseg tmpC' tmpF 1 segsSel \<and>
   dispTemp sseg tmpC tmpF 0 segsSel = dispTemp sseg tmpC tmpF' 0 segsSel \<and>
   dispTemp_temp tmpC tmpF 1 = (if flt tmpF (Val 0) then Val 0 else tmpF) \<and>
   dispTemp_temp tmpC tmpF 0 = (if flt tmpC (Val 0) then Val 0 else tmpC) \<and>
   dispTemp (clearDisp sseg0) (rnd32 (- 532 / 100)) (cel2fer (rnd32 (- 532 / 100))) 1 0 =
     Some (\<lparr>digit = [0x0F, 4, 2, 2, 255, 255, 255, 255], dp = 0\<rparr>, False)"
proof -
  have "dispTemp (clearDisp sseg0) (rnd32 (- 532 / 100)) (cel2fer (rnd32 (- 532 / 100))) 1 0 =
     Some (\<lparr>digit = [0x0F, 4, 2, 2, 255, 255, 255, 255], dp = 0\<rparr>, False)"
    by code_simp
  then show ?thesis
    by (simp add: dispTemp_def dispTemp_temp_def Let_def)
qed

section \<open>The indicators\<close>

text \<open>
  C4, amended. \<open>setRGB\<close> with \<open>color = 1\<close> (red) on the interior indicator sets PWM
  channel 5 (not 4) to the duty 0.30 and channels 3 and 4 to 0.0, and leaves channels
  0 to 2, 6 and 7 untouched.
\<close>

theorem setRGB_red_interior:
  assumes "length (duty pwm) = 8"
  shows "setRGB pwm 1 1 = pwm\<lparr>duty := (duty pwm)[3 := Val 0, 4 := Val 0, 5 := setRGB_duty]\<rparr> \<and>
    setRGB_duty = rnd64 (3 / 10) \<and>
    take 3 (duty (setRGB pwm 1 1)) = take 3 (duty pwm) \<and>
    drop 6 (duty (setRGB pwm 1 1)) = drop 6 (duty pwm)"
  using assms
  by (simp add: setRGB_def set_duty_def setRGB_duty_def)

text \<open>On the indicators as constructed, channel 5 alone is lit.\<close>

theorem setRGB_red_interior_witness:
  "length (duty pwm0) = 8 \<and>
   setRGB pwm0 1 1 =
     \<lparr>duty = [Val 0, Val 0, Val 0, Val 0, Val 0, setRGB_duty, Val 0, Val 0], freq = 0\<rparr>"
proof -
  have h: "length (duty pwm0) = 8"
    by code_simp
  have c: "pwm0\<lparr>duty := (duty pwm0)[3 := Val 0, 4 := Val 0, 5 := setRGB_duty]\<rparr> =
     \<lparr>duty = [Val 0, Val 0, Val 0, Val 0, Val 0, setRGB_duty, Val 0, Val 0], freq = 0\<rparr>"
    by (simp add: pwm0_def numeral_eq_Suc)
  from setRGB_red_interior [OF h]
  have "setRGB pwm0 1 1 =
     \<lparr>duty = [Val 0, Val 0, Val 0, Val 0, Val 0, setRGB_duty, Val 0, Val 0], freq = 0\<rparr>"
    unfolding c by (rule conjunct1)
  with h show ?thesis by simp
qed

text \<open>
  C4 as stated fails: after \<open>setRGB\<close> with \<open>color = 1\<close> on the interior indicator,
  channel 4 holds 0.0 and channel 5 holds the duty 0.30, also when channel 4 was lit
  (green) before the call.
\<close>

theorem setRGB_red_interior_counterexample:
  "setRGB pwm0 1 1 =
     \<lparr>duty = [Val 0, Val 0, Val 0, Val 0, Val 0, setRGB_duty, Val 0, Val 0], freq = 0\<rparr> \<and>
   setRGB_duty = Val (5404319552844595 / 18014398509481984) \<and>
   duty (setRGB pwm0 1 1) ! 4 \<noteq> setRGB_duty \<and>
   duty (setRGB pwm0 1 1) ! 5 \<noteq> Val 0 \<and>
   duty (setRGB pwm0 0 1) ! 4 = setRGB_duty \<and>
   duty (setRGB (setRGB pwm0 0 1) 1 1) ! 4 = Val 0"
  by code_simp

end
